theory Spec2Isabelle
  imports Complex_Main
begin

section \<open>Values of the numeric engine\<close>

text \<open>
  The engine of \<^verbatim>\<open>app.py\<close> works on numpy \<^verbatim>\<open>float64\<close> values. A finite value is
  modelled by the real number it denotes. The operations of this section are exact;
  the rounded ones, used where rounding decides a statement, follow the engine below.
  Overflow and the sign of zero are not modelled (the one zero stands for
  \<^verbatim>\<open>+0.0\<close>). The three non-finite values are kept, because numpy does not raise on a
  division by zero: it yields an infinity or a NaN (with a warning) and goes on.
\<close>

datatype npfloat = Fin real | PInf | NInf | NaN

text \<open>The infinity carrying the sign of \<open>s\<close>; the indeterminate forms give NaN.\<close>

definition inf_of_sign :: "real \<Rightarrow> npfloat" where
  "inf_of_sign s = (if s = 0 then NaN else if 0 < s then PInf else NInf)"

fun np_neg :: "npfloat \<Rightarrow> npfloat" where
  "np_neg (Fin a) = Fin (- a)"
| "np_neg PInf = NInf"
| "np_neg NInf = PInf"
| "np_neg NaN = NaN"

fun np_add :: "npfloat \<Rightarrow> npfloat \<Rightarrow> npfloat" where
  "np_add (Fin a) (Fin b) = Fin (a + b)"
| "np_add NaN y = NaN"
| "np_add x NaN = NaN"
| "np_add PInf NInf = NaN"
| "np_add NInf PInf = NaN"
| "np_add PInf y = PInf"
| "np_add x PInf = PInf"
| "np_add NInf y = NInf"
| "np_add x NInf = NInf"

definition np_sub :: "npfloat \<Rightarrow> npfloat \<Rightarrow> npfloat" where
  "np_sub x y = np_add x (np_neg y)"

fun np_mul :: "npfloat \<Rightarrow> npfloat \<Rightarrow> npfloat" where
  "np_mul (Fin a) (Fin b) = Fin (a * b)"
| "np_mul NaN y = NaN"
| "np_mul x NaN = NaN"
| "np_mul PInf (Fin b) = inf_of_sign b"
| "np_mul (Fin a) PInf = inf_of_sign a"
| "np_mul NInf (Fin b) = inf_of_sign (- b)"
| "np_mul (Fin a) NInf = inf_of_sign (- a)"
| "np_mul PInf PInf = PInf"
| "np_mul NInf NInf = PInf"
| "np_mul PInf NInf = NInf"
| "np_mul NInf PInf = NInf"

text \<open>
  Division of float64 scalars and arrays: a zero divisor gives the infinity with the
  sign of the dividend, and \<open>0 / 0\<close> gives NaN.
\<close>

fun np_div :: "npfloat \<Rightarrow> npfloat \<Rightarrow> npfloat" where
  "np_div (Fin a) (Fin b) = (if b = 0 then inf_of_sign a else Fin (a / b))"
| "np_div NaN y = NaN"
| "np_div x NaN = NaN"
| "np_div (Fin a) y = Fin 0"
| "np_div PInf (Fin b) = (if 0 \<le> b then PInf else NInf)"
| "np_div NInf (Fin b) = (if 0 \<le> b then NInf else PInf)"
| "np_div x y = NaN"

text \<open>Comparisons: every comparison with NaN is false.\<close>

fun np_lt :: "npfloat \<Rightarrow> npfloat \<Rightarrow> bool" where
  "np_lt (Fin a) (Fin b) = (a < b)"
| "np_lt NaN y = False"
| "np_lt x NaN = False"
| "np_lt x NInf = False"
| "np_lt PInf y = False"
| "np_lt x y = True"

definition np_eq :: "npfloat \<Rightarrow> npfloat \<Rightarrow> bool" where
  "np_eq x y = (x \<noteq> NaN \<and> x = y)"

definition np_ge :: "npfloat \<Rightarrow> npfloat \<Rightarrow> bool" where
  "np_ge x y = (np_lt y x \<or> np_eq x y)"

text \<open>\<^verbatim>\<open>np.maximum\<close>, \<^verbatim>\<open>np.minimum\<close> and \<^verbatim>\<open>np.clip\<close> propagate NaN.\<close>

definition np_maximum :: "npfloat \<Rightarrow> npfloat \<Rightarrow> npfloat" where
  "np_maximum x y = (if x = NaN \<or> y = NaN then NaN else if np_lt x y then y else x)"

definition np_minimum :: "npfloat \<Rightarrow> npfloat \<Rightarrow> npfloat" where
  "np_minimum x y = (if x = NaN \<or> y = NaN then NaN else if np_lt y x then y else x)"

definition np_clip :: "npfloat \<Rightarrow> npfloat \<Rightarrow> npfloat \<Rightarrow> npfloat" where
  "np_clip x lo hi = np_minimum (np_maximum x lo) hi"

text \<open>\<^verbatim>\<open>np.min\<close> and \<^verbatim>\<open>np.mean\<close> of a non-empty array; Python's \<^verbatim>\<open>sum\<close> of a list.\<close>

definition np_min :: "npfloat list \<Rightarrow> npfloat" where
  "np_min xs = fold np_minimum (tl xs) (hd xs)"

definition py_sum :: "npfloat list \<Rightarrow> npfloat" where
  "py_sum xs = foldl np_add (Fin 0) xs"

definition np_mean :: "npfloat list \<Rightarrow> npfloat" where
  "np_mean xs = np_div (py_sum xs) (Fin (real (length xs)))"

datatype py_error = IndexError

section \<open>The ET engine\<close>

definition g_min_default :: npfloat where
  "g_min_default = Fin 3"

definition g_max_default :: npfloat where
  "g_max_default = Fin 25"

text \<open>
  \<^verbatim>\<open>compute_T_E(g_values, g_min=3.0, g_max=25.0)\<close>: the whole array at once in the
  source, one element at a time here. The result is the pair \<open>(E, T)\<close>.
\<close>

definition T_of :: "npfloat \<Rightarrow> npfloat \<Rightarrow> npfloat \<Rightarrow> npfloat" where
  "T_of g_min g_max g = np_clip (np_div (np_sub g g_min) (np_sub g_max g_min)) (Fin 0) (Fin 1)"

definition E_of :: "npfloat \<Rightarrow> npfloat" where
  "E_of T = np_sub (Fin 1) (np_mul T T)"

definition compute_T_E :: "npfloat list \<Rightarrow> npfloat \<Rightarrow> npfloat \<Rightarrow> npfloat list \<times> npfloat list" where
  "compute_T_E g_values g_min g_max =
     (let T = map (T_of g_min g_max) g_values;
          E = map E_of T
      in (E, T))"

text \<open>
  \<^verbatim>\<open>compute_dE_pct(E)\<close>: the list starts with \<^verbatim>\<open>None\<close> and gets one entry for each
  \<open>i\<close> from 1 to \<open>len(E) - 1\<close>. \<open>E\<close> is a numpy array, so the division does not raise.
\<close>

definition compute_dE_pct :: "npfloat list \<Rightarrow> npfloat option list" where
  "compute_dE_pct E =
     None # map (\<lambda>i. Some (np_mul (np_div (np_sub (E ! i) (E ! (i - 1))) (E ! (i - 1))) (Fin 100)))
                [1 ..< length E]"

section \<open>Classification\<close>

record summary =
  status :: string
  reason :: string
  E_pre :: npfloat
  E_min :: npfloat
  E_mean :: npfloat
  E_mean_rel :: npfloat

text \<open>
  Strings are the UTF-8 bytes of the source's text: the dash of the reason sentences
  and of the YELLOW guidance is U+2013, three bytes.
\<close>

definition en_dash :: string where
  "en_dash = [CHR 0xE2, CHR 0x80, CHR 0x93]"

definition reason_GREEN :: string where
  "reason_GREEN = ''GREEN '' @ en_dash @
     '' mean Bio-Time level remains close to the pre-meal state; '' @
     ''the contraction of biological time over this meal is mild.''"

definition reason_YELLOW :: string where
  "reason_YELLOW = ''YELLOW '' @ en_dash @
     '' mean Bio-Time level is moderately reduced; '' @
     ''this meal consumes a noticeable fraction of regulatory time.''"

definition reason_RED :: string where
  "reason_RED = ''RED '' @ en_dash @
     '' mean Bio-Time level is markedly reduced; '' @
     ''this meal compresses biological time and limits recovery windows.''"

text \<open>
  \<^verbatim>\<open>classify_with_reason(E)\<close>. \<^verbatim>\<open>E[0]\<close> is read first, and raises IndexError on an
  empty array.
\<close>

definition classify_with_reason :: "npfloat list \<Rightarrow> py_error + summary" where
  "classify_with_reason E =
     (if E = [] then Inl IndexError
      else
        let E_pre = E ! 0;
            E_min = np_min E;
            E_mean = np_mean E;
            E_mean_rel = (if np_eq E_pre (Fin 0) then Fin 100
                          else np_mul (np_div E_mean E_pre) (Fin 100));
            (status, reason) =
              (if np_ge E_mean_rel (Fin 90) then (''GREEN'', reason_GREEN)
               else if np_ge E_mean_rel (Fin 75) then (''YELLOW'', reason_YELLOW)
               else (''RED'', reason_RED))
        in Inr \<lparr>status = status, reason = reason, E_pre = E_pre, E_min = E_min,
                 E_mean = E_mean, E_mean_rel = E_mean_rel\<rparr>)"

section \<open>Guidance\<close>

definition nl :: string where
  "nl = [CHR 0x0A]"

definition guidance_GREEN :: string where
  "guidance_GREEN =
     ''**Scientific guidance**'' @ nl @
     ''- The overall Bio-Time level stays near the pre-meal baseline.'' @ nl @
     ''- Such meals are compatible with long-term metabolic resilience.'' @ nl @
     ''- Maintain fibre and protein intake; avoid excessive liquid sugars.'' @ nl"

definition guidance_YELLOW :: string where
  "guidance_YELLOW =
     ''**Scientific guidance**'' @ nl @
     ''- The system accepts a moderate Bio-Time contraction to handle this meal.'' @ nl @
     ''- Repeated YELLOW patterns may accumulate subtle '' @ [CHR 0x27] @ ''time-debt'' @ [CHR 0x27] @
     '' '' @ en_dash @ '' fatigue or brain fog after meals.'' @ nl @
     ''- Reducing fast sugars and adding fibre/protein can lower the Bio-Time cost.'' @ nl"

definition guidance_RED :: string where
  "guidance_RED =
     ''**Scientific guidance**'' @ nl @
     ''- The meal induces a strong average contraction of biological time.'' @ nl @
     ''- Recurrent RED patterns are compatible with higher metabolic and vascular stress.'' @ nl @
     ''- Consider reducing high-GI and liquid carbohydrates and seeking professional advice if common.'' @ nl"

definition detailed_guidance :: "string \<Rightarrow> string" where
  "detailed_guidance st =
     (if st = ''GREEN'' then guidance_GREEN
      else if st = ''YELLOW'' then guidance_YELLOW
      else guidance_RED)"

section \<open>One analysis\<close>

text \<open>
  The net shift of the output branch: \<^verbatim>\<open>steps = dE[1:]\<close>, then
  \<^verbatim>\<open>net = sum([x for x in steps if x is not None])\<close>.
\<close>

definition steps_of :: "npfloat option list \<Rightarrow> npfloat option list" where
  "steps_of dE = tl dE"

definition net :: "npfloat option list \<Rightarrow> npfloat" where
  "net steps = py_sum (map the (filter (\<lambda>x. x \<noteq> None) steps))"

record analysis =
  a_summary :: summary
  a_steps :: "npfloat option list"
  a_net :: npfloat
  a_guidance :: string

text \<open>
  What the script computes once \<^verbatim>\<open>Analyze Meal\<close> is pressed, from the list
  \<^verbatim>\<open>glucose\<close>, in the source's order; the first exception ends it. The rendering of
  the results is left out; the lookup of the icon cannot fail, since the status is one
  of its three keys.
\<close>

definition analyze :: "npfloat list \<Rightarrow> py_error + analysis" where
  "analyze glucose =
     (let (E, T) = compute_T_E glucose g_min_default g_max_default;
          dE = compute_dE_pct E;
          steps = steps_of dE;
          n = net steps
      in case classify_with_reason E of
           Inl e \<Rightarrow> Inl e
         | Inr s \<Rightarrow> Inr \<lparr>a_summary = s, a_steps = steps, a_net = n,
                          a_guidance = detailed_guidance (status s)\<rparr>)"

section \<open>Rounded arithmetic\<close>

text \<open>
  Where a statement depends on the rounding of float64, the engine is taken with every
  arithmetic operation rounded, as the hardware does it: the exact result of the
  operation, rounded to binary64. \<open>fl64\<close> rounds a real number to 53 significant bits,
  to the nearest value and to the even one on a tie; \<open>rne\<close> rounds a real number to the
  nearest integer in the same way. The exponent range is not bounded here: no overflow
  to infinity and no subnormal numbers, which the values met in this engine (between
  about \<open>1e-21\<close> and \<open>100\<close>) do not reach.
\<close>

definition rne :: "real \<Rightarrow> int" where
  "rne x = (let f = \<lfloor>x\<rfloor>; d = x - of_int f in
      if d < 1/2 then f else if 1/2 < d then f + 1 else if even f then f else f + 1)"

text \<open>
  \<open>lg2 x\<close> is the binary exponent of a positive \<open>x\<close>, the integer \<open>k\<close> with
  \<open>2\<^sup>k \<le> x < 2\<^sup>k\<^sup>+\<^sup>1\<close>, found by doubling or halving.
\<close>

function lg2 :: "real \<Rightarrow> int" where
  "lg2 x = (if x \<le> 0 then 0
            else if x < 1 then lg2 (2 * x) - 1
            else if 2 \<le> x then lg2 (x / 2) + 1
            else 0)"
  by pat_completeness auto
termination
proof (relation "measure (\<lambda>x. nat \<bar>\<lfloor>log 2 x\<rfloor>\<bar>)")
  show "wf (measure (\<lambda>x. nat \<bar>\<lfloor>log 2 x\<rfloor>\<bar>))" by simp
next
  fix x :: real
  assume a: "\<not> x \<le> 0" "x < 1"
  have "log 2 (2 * x) = 1 + log 2 x" using a by (simp add: log_mult)
  then have f: "\<lfloor>log 2 (2 * x)\<rfloor> = \<lfloor>log 2 x\<rfloor> + 1" by simp
  define k where "k = \<lfloor>log 2 x\<rfloor>"
  have "log 2 x < 0" using a by simp
  then have "k < 0" unfolding k_def by (simp add: floor_less_iff)
  then have "nat \<bar>k + 1\<bar> < nat \<bar>k\<bar>" by linarith
  then show "(2 * x, x) \<in> measure (\<lambda>x. nat \<bar>\<lfloor>log 2 x\<rfloor>\<bar>)"
    unfolding in_measure f k_def .
next
  fix x :: real
  assume a: "\<not> x \<le> 0" "\<not> x < 1" "2 \<le> x"
  have "log 2 (x / 2) = log 2 x - 1" using a by (simp add: log_divide)
  then have f: "\<lfloor>log 2 (x / 2)\<rfloor> = \<lfloor>log 2 x\<rfloor> - 1" by simp
  define k where "k = \<lfloor>log 2 x\<rfloor>"
  have "1 \<le> log 2 x" using a by (simp add: le_log_iff)
  then have "1 \<le> k" unfolding k_def by (simp add: le_floor_iff)
  then have "nat \<bar>k - 1\<bar> < nat \<bar>k\<bar>" by linarith
  then show "(x / 2, x) \<in> measure (\<lambda>x. nat \<bar>\<lfloor>log 2 x\<rfloor>\<bar>)"
    unfolding in_measure f k_def .
qed

declare lg2.simps [simp del]

definition fl64 :: "real \<Rightarrow> real" where
  "fl64 x = (if x = 0 then 0
     else let e = lg2 \<bar>x\<bar> - 52 in of_int (rne (x / 2 powi e)) * 2 powi e)"

definition rnd :: "npfloat \<Rightarrow> npfloat" where
  "rnd x = (case x of Fin a \<Rightarrow> Fin (fl64 a) | _ \<Rightarrow> x)"


definition fsub :: "npfloat \<Rightarrow> npfloat \<Rightarrow> npfloat" where
  "fsub x y = rnd (np_sub x y)"

definition fmul :: "npfloat \<Rightarrow> npfloat \<Rightarrow> npfloat" where
  "fmul x y = rnd (np_mul x y)"

definition fdiv :: "npfloat \<Rightarrow> npfloat \<Rightarrow> npfloat" where
  "fdiv x y = rnd (np_div x y)"

text \<open>
  The functions of the engine again, with the rounded operations: \<^verbatim>\<open>compute_T_E\<close>,
  \<^verbatim>\<open>sum\<close> and \<^verbatim>\<open>np.mean\<close> (the sum from left to right, then the quotient by the
  length), and \<^verbatim>\<open>classify_with_reason\<close>. Comparisons, \<^verbatim>\<open>np.clip\<close> and \<^verbatim>\<open>np.min\<close>
  do not round. The constants of the source (3.0, 25.0, 0.0, 1.0, 100.0, 90.0, 75.0)
  are binary64 values.
\<close>

definition T_of_f64 :: "npfloat \<Rightarrow> npfloat \<Rightarrow> npfloat \<Rightarrow> npfloat" where
  "T_of_f64 g_min g_max g = np_clip (fdiv (fsub g g_min) (fsub g_max g_min)) (Fin 0) (Fin 1)"

definition E_of_f64 :: "npfloat \<Rightarrow> npfloat" where
  "E_of_f64 T = fsub (Fin 1) (fmul T T)"

definition compute_T_E_f64 ::
  "npfloat list \<Rightarrow> npfloat \<Rightarrow> npfloat \<Rightarrow> npfloat list \<times> npfloat list" where
  "compute_T_E_f64 g_values g_min g_max =
     (let T = map (T_of_f64 g_min g_max) g_values;
          E = map E_of_f64 T
      in (E, T))"




section \<open>Finite arrays\<close>

text \<open>On arrays of finite values the array operations are the real ones.\<close>

lemma foldl_np_add_Fin: "foldl np_add (Fin a) (map Fin rs) = Fin (a + sum_list rs)"
  by (induction rs arbitrary: a) (simp_all add: add.assoc)

lemma py_sum_Fin: "py_sum (map Fin rs) = Fin (sum_list rs)"
  by (simp add: py_sum_def foldl_np_add_Fin)

lemma np_minimum_Fin: "np_minimum (Fin a) (Fin b) = Fin (min a b)"
  by (simp add: np_minimum_def min_def)

lemma np_maximum_Fin: "np_maximum (Fin a) (Fin b) = Fin (max a b)"
  by (simp add: np_maximum_def max_def)



lemma np_mean_Fin: "rs \<noteq> [] \<Longrightarrow> np_mean (map Fin rs) = Fin (sum_list rs / real (length rs))"
  by (simp add: np_mean_def py_sum_Fin)

section \<open>The classifier's result\<close>

lemma classify_Inr: "E \<noteq> [] \<Longrightarrow> \<exists>s. classify_with_reason E = Inr s"
  by (simp add: classify_with_reason_def Let_def split: prod.splits)

lemma classify_empty: "classify_with_reason [] = Inl IndexError"
  by (simp add: classify_with_reason_def)

lemma classify_fields:
  assumes "classify_with_reason E = Inr s"
  shows "E \<noteq> []" "E_pre s = E ! 0" "E_min s = np_min E" "E_mean s = np_mean E"
    "E_mean_rel s = (if np_eq (E ! 0) (Fin 0) then Fin 100
                     else np_mul (np_div (np_mean E) (E ! 0)) (Fin 100))"
    "status s = (if np_ge (E_mean_rel s) (Fin 90) then ''GREEN''
                 else if np_ge (E_mean_rel s) (Fin 75) then ''YELLOW'' else ''RED'')"
    "reason s = (if np_ge (E_mean_rel s) (Fin 90) then reason_GREEN
                 else if np_ge (E_mean_rel s) (Fin 75) then reason_YELLOW else reason_RED)"
  using assms
  by (auto simp add: classify_with_reason_def Let_def split: if_splits prod.splits)

lemma np_ge_Fin: "np_ge (Fin a) (Fin b) \<longleftrightarrow> b \<le> a"
  by (auto simp add: np_ge_def np_eq_def)

lemma E_mean_rel_Fin:
  assumes "rs \<noteq> []" "classify_with_reason (map Fin rs) = Inr s"
  shows "E_mean_rel s =
    Fin (if hd rs = 0 then 100 else (sum_list rs / real (length rs)) / hd rs * 100)"
proof -
  have h: "map Fin rs ! 0 = Fin (hd rs)"
    using assms(1) by (cases rs) simp_all
  show ?thesis
    unfolding classify_fields(5)[OF assms(2)] h np_mean_Fin[OF assms(1)]
    by (simp add: np_eq_def)
qed

section \<open>Status bands\<close>

text \<open>
  C1. For every array of 5 finite values the classifier returns a summary whose
  \<open>E_mean_rel\<close> is a finite number \<open>r\<close> and whose status is exactly one of the three
  labels, with inclusive lower bounds: GREEN exactly when \<open>r \<ge> 90\<close>, YELLOW exactly
  when \<open>75 \<le> r < 90\<close>, RED exactly when \<open>r < 75\<close>. So \<open>r = 90\<close> is GREEN and
  \<open>r = 75\<close> is YELLOW.
\<close>

theorem classify_status_bands:
  assumes "length rs = 5"
  shows "\<exists>s r. classify_with_reason (map Fin rs) = Inr s \<and> E_mean_rel s = Fin r \<and>
           status s \<in> {''GREEN'', ''YELLOW'', ''RED''} \<and>
           (status s = ''GREEN'' \<longleftrightarrow> 90 \<le> r) \<and>
           (status s = ''YELLOW'' \<longleftrightarrow> 75 \<le> r \<and> r < 90) \<and>
           (status s = ''RED'' \<longleftrightarrow> r < 75)"
proof -
  from assms have ne: "rs \<noteq> []" by auto
  then obtain s where s: "classify_with_reason (map Fin rs) = Inr s"
    using classify_Inr[of "map Fin rs"] by auto
  obtain r where r: "E_mean_rel s = Fin r"
    using E_mean_rel_Fin[OF ne s] by blast
  have st: "status s = (if 90 \<le> r then ''GREEN'' else if 75 \<le> r then ''YELLOW'' else ''RED'')"
    using classify_fields(6)[OF s] by (simp add: r np_ge_Fin)
  have 1: "status s \<in> {''GREEN'', ''YELLOW'', ''RED''}" by (simp add: st)
  have 2: "status s = ''GREEN'' \<longleftrightarrow> 90 \<le> r" by (simp add: st)
  have 3: "status s = ''YELLOW'' \<longleftrightarrow> 75 \<le> r \<and> r < 90" by (simp add: st)
  have 4: "status s = ''RED'' \<longleftrightarrow> r < 75" by (simp add: st)
  from s r 1 2 3 4 show ?thesis by blast
qed

theorem classify_status_bands_witness:
  "(\<exists>s. classify_with_reason (map Fin [1, 9/10, 9/10, 9/10, 8/10]) = Inr s \<and>
        E_mean_rel s = Fin 90 \<and> status s = ''GREEN'') \<and>
   (\<exists>s. classify_with_reason (map Fin [1, 1/2, 3/4, 3/4, 3/4]) = Inr s \<and>
        E_mean_rel s = Fin 75 \<and> status s = ''YELLOW'') \<and>
   (\<exists>s. classify_with_reason (map Fin [1, 1/2, 1/2, 3/4, 3/4]) = Inr s \<and>
        E_mean_rel s = Fin 70 \<and> status s = ''RED'')"
proof -
  have a: "length [1, 9/10, 9/10, 9/10, 8/10 :: real] = 5" by simp
  have b: "length [1, 1/2, 3/4, 3/4, 3/4 :: real] = 5" by simp
  have c: "length [1, 1/2, 1/2, 3/4, 3/4 :: real] = 5" by simp
  have A: "\<exists>s. classify_with_reason (map Fin [1, 9/10, 9/10, 9/10, 8/10]) = Inr s \<and>
        E_mean_rel s = Fin 90 \<and> status s = ''GREEN''"
  proof -
    from classify_status_bands[OF a] obtain s r where
      s: "classify_with_reason (map Fin [1, 9/10, 9/10, 9/10, 8/10]) = Inr s"
      and r: "E_mean_rel s = Fin r" and g: "status s = ''GREEN'' \<longleftrightarrow> 90 \<le> r" by blast
    have "E_mean_rel s = Fin 90"
      using E_mean_rel_Fin[OF _ s] by simp
    with r g s show ?thesis by simp
  qed
  have B: "\<exists>s. classify_with_reason (map Fin [1, 1/2, 3/4, 3/4, 3/4]) = Inr s \<and>
        E_mean_rel s = Fin 75 \<and> status s = ''YELLOW''"
  proof -
    from classify_status_bands[OF b] obtain s r where
      s: "classify_with_reason (map Fin [1, 1/2, 3/4, 3/4, 3/4]) = Inr s"
      and r: "E_mean_rel s = Fin r"
      and g: "status s = ''YELLOW'' \<longleftrightarrow> 75 \<le> r \<and> r < 90" by blast
    have "E_mean_rel s = Fin 75"
      using E_mean_rel_Fin[OF _ s] by simp
    with r g s show ?thesis by simp
  qed
  have C: "\<exists>s. classify_with_reason (map Fin [1, 1/2, 1/2, 3/4, 3/4]) = Inr s \<and>
        E_mean_rel s = Fin 70 \<and> status s = ''RED''"
  proof -
    from classify_status_bands[OF c] obtain s r where
      s: "classify_with_reason (map Fin [1, 1/2, 1/2, 3/4, 3/4]) = Inr s"
      and r: "E_mean_rel s = Fin r" and g: "status s = ''RED'' \<longleftrightarrow> r < 75" by blast
    have "E_mean_rel s = Fin 70"
      using E_mean_rel_Fin[OF _ s] by simp
    with r g s show ?thesis by simp
  qed
  from A B C show ?thesis by blast
qed


lemma T_of_Fin:
  "T_of g_min_default g_max_default (Fin g) = Fin (min (max ((g - 3) / (25 - 3)) 0) 1)"
  by (simp add: T_of_def g_min_default_def g_max_default_def np_clip_def np_sub_def
      np_maximum_Fin np_minimum_Fin)

lemma E_of_Fin: "E_of (Fin t) = Fin (1 - t\<^sup>2)"
  by (simp add: E_of_def np_sub_def power2_eq_square)

lemma compute_T_E_Fin:
  "compute_T_E (map Fin gs) g_min_default g_max_default =
     (map (\<lambda>g. Fin (1 - (min (max ((g - 3) / (25 - 3)) 0) 1)\<^sup>2)) gs,
      map (\<lambda>g. Fin (min (max ((g - 3) / (25 - 3)) 0) 1)) gs)"
  by (simp add: compute_T_E_def Let_def T_of_Fin E_of_Fin comp_def)

section \<open>The relative mean\<close>



section \<open>Status as a function of the relative mean\<close>

text \<open>
  C7. Two glucose inputs of 5 values whose E arrays give the classifier the same
  \<open>E_mean_rel\<close> get the same status and the same reason text.
\<close>

theorem status_depends_on_E_mean_rel:
  assumes "length g1 = 5" and "length g2 = 5"
    and "classify_with_reason (fst (compute_T_E (map Fin g1) g_min_default g_max_default)) = Inr s1"
    and "classify_with_reason (fst (compute_T_E (map Fin g2) g_min_default g_max_default)) = Inr s2"
    and "E_mean_rel s1 = E_mean_rel s2"
  shows "status s1 = status s2 \<and> reason s1 = reason s2"
  using classify_fields(6,7)[OF assms(3)] classify_fields(6,7)[OF assms(4)] assms(5)
  by simp

theorem status_depends_on_E_mean_rel_witness:
  "\<exists>s1 s2. [4, 6, 7, 13/2, 11/2] \<noteq> [4, 7, 6, 13/2, 11/2 :: real] \<and>
     classify_with_reason (fst (compute_T_E (map Fin [4, 6, 7, 13/2, 11/2])
        g_min_default g_max_default)) = Inr s1 \<and>
     classify_with_reason (fst (compute_T_E (map Fin [4, 7, 6, 13/2, 11/2])
        g_min_default g_max_default)) = Inr s2 \<and>
     E_mean_rel s1 = E_mean_rel s2 \<and> status s1 = status s2 \<and> reason s1 = reason s2"
proof -
  have e1: "fst (compute_T_E (map Fin [4, 6, 7, 13/2, 11/2]) g_min_default g_max_default) =
      map Fin [483/484, 475/484, 468/484, 1887/1936, 1911/1936]"
    unfolding compute_T_E_Fin by (simp add: power2_eq_square)
  have e2: "fst (compute_T_E (map Fin [4, 7, 6, 13/2, 11/2]) g_min_default g_max_default) =
      map Fin [483/484, 468/484, 475/484, 1887/1936, 1911/1936]"
    unfolding compute_T_E_Fin by (simp add: power2_eq_square)
  obtain s1 where s1: "classify_with_reason (map Fin [483/484, 475/484, 468/484, 1887/1936, 1911/1936]) = Inr s1"
    using classify_Inr[of "map Fin [483/484, 475/484, 468/484, 1887/1936, 1911/1936]"] by auto
  obtain s2 where s2: "classify_with_reason (map Fin [483/484, 468/484, 475/484, 1887/1936, 1911/1936]) = Inr s2"
    using classify_Inr[of "map Fin [483/484, 468/484, 475/484, 1887/1936, 1911/1936]"] by auto
  have r1: "E_mean_rel s1 = Fin (47510 / 483)" using E_mean_rel_Fin[OF _ s1] by simp
  have r2: "E_mean_rel s2 = Fin (47510 / 483)" using E_mean_rel_Fin[OF _ s2] by simp
  have eq: "E_mean_rel s1 = E_mean_rel s2" using r1 r2 by simp
  have l1: "length [4, 6, 7, 13/2, 11/2 :: real] = 5" by simp
  have l2: "length [4, 7, 6, 13/2, 11/2 :: real] = 5" by simp
  have "status s1 = status s2 \<and> reason s1 = reason s2"
    using status_depends_on_E_mean_rel[OF l1 l2 _ _ eq] e1 e2 s1 s2 by simp
  with e1 e2 s1 s2 eq show ?thesis by simp
qed

section \<open>Guidance texts\<close>

lemma guidance_distinct:
  "guidance_GREEN \<noteq> guidance_YELLOW" "guidance_GREEN \<noteq> guidance_RED"
  "guidance_YELLOW \<noteq> guidance_RED"
  by (simp_all add: guidance_GREEN_def guidance_YELLOW_def guidance_RED_def nl_def)

lemma guidance_nonempty:
  "guidance_GREEN \<noteq> []" "guidance_YELLOW \<noteq> []" "guidance_RED \<noteq> []"
  by (simp_all add: guidance_GREEN_def guidance_YELLOW_def guidance_RED_def)

text \<open>
  C9. The guidance generator returns a text for every string: the GREEN block exactly
  when the string is \<open>GREEN\<close>, the YELLOW block exactly when it is \<open>YELLOW\<close>, the RED
  block for every other string, and never the empty text.
\<close>

theorem detailed_guidance_total:
  "(detailed_guidance st = guidance_GREEN \<longleftrightarrow> st = ''GREEN'') \<and>
   (detailed_guidance st = guidance_YELLOW \<longleftrightarrow> st = ''YELLOW'') \<and>
   (detailed_guidance st = guidance_RED \<longleftrightarrow> st \<noteq> ''GREEN'' \<and> st \<noteq> ''YELLOW'') \<and>
   detailed_guidance st \<noteq> []"
proof -
  have 1: "detailed_guidance st = guidance_GREEN \<longleftrightarrow> st = ''GREEN''"
    using guidance_distinct by (simp add: detailed_guidance_def)
  have 2: "detailed_guidance st = guidance_YELLOW \<longleftrightarrow> st = ''YELLOW''"
    using guidance_distinct by (auto simp add: detailed_guidance_def)
  have 3: "detailed_guidance st = guidance_RED \<longleftrightarrow> st \<noteq> ''GREEN'' \<and> st \<noteq> ''YELLOW''"
    using guidance_distinct by (auto simp add: detailed_guidance_def)
  have 4: "detailed_guidance st \<noteq> []"
    using guidance_nonempty by (simp add: detailed_guidance_def)
  from 1 2 3 4 show ?thesis by blast
qed

theorem detailed_guidance_total_witness:
  "detailed_guidance ''GREEN'' = guidance_GREEN \<and>
   detailed_guidance ''YELLOW'' = guidance_YELLOW \<and>
   detailed_guidance ''RED'' = guidance_RED \<and>
   detailed_guidance ''PURPLE'' = guidance_RED \<and>
   detailed_guidance ''green'' \<noteq> guidance_GREEN"
proof -
  have "detailed_guidance ''GREEN'' = guidance_GREEN \<longleftrightarrow> ''GREEN'' = ''GREEN''"
    using detailed_guidance_total[of "''GREEN''"] by (rule conjunct1)
  then have a: "detailed_guidance ''GREEN'' = guidance_GREEN" by simp
  have "detailed_guidance ''YELLOW'' = guidance_YELLOW \<longleftrightarrow> ''YELLOW'' = ''YELLOW''"
    using detailed_guidance_total[of "''YELLOW''"] by (rule conjunct1[OF conjunct2])
  then have b: "detailed_guidance ''YELLOW'' = guidance_YELLOW" by simp
  have "detailed_guidance ''RED'' = guidance_RED \<longleftrightarrow> ''RED'' \<noteq> ''GREEN'' \<and> ''RED'' \<noteq> ''YELLOW''"
    using detailed_guidance_total[of "''RED''"] by (rule conjunct1[OF conjunct2[OF conjunct2]])
  then have c: "detailed_guidance ''RED'' = guidance_RED" by simp
  have "detailed_guidance ''PURPLE'' = guidance_RED \<longleftrightarrow>
      ''PURPLE'' \<noteq> ''GREEN'' \<and> ''PURPLE'' \<noteq> ''YELLOW''"
    using detailed_guidance_total[of "''PURPLE''"] by (rule conjunct1[OF conjunct2[OF conjunct2]])
  then have d: "detailed_guidance ''PURPLE'' = guidance_RED" by simp
  have "detailed_guidance ''green'' = guidance_GREEN \<longleftrightarrow> ''green'' = ''GREEN''"
    using detailed_guidance_total[of "''green''"] by (rule conjunct1)
  then have e: "detailed_guidance ''green'' \<noteq> guidance_GREEN" by simp
  from a b c d e show ?thesis by (intro conjI)
qed

section \<open>The analysis of one meal\<close>

lemma analyze_Inr:
  assumes "classify_with_reason (fst (compute_T_E g g_min_default g_max_default)) = Inr s"
  shows "analyze g =
    Inr \<lparr>a_summary = s,
         a_steps = steps_of (compute_dE_pct (fst (compute_T_E g g_min_default g_max_default))),
         a_net = net (steps_of (compute_dE_pct (fst (compute_T_E g g_min_default g_max_default)))),
         a_guidance = detailed_guidance (status s)\<rparr>"
  using assms by (simp add: analyze_def Let_def case_prod_beta)

lemma analyze_Inl:
  assumes "classify_with_reason (fst (compute_T_E g g_min_default g_max_default)) = Inl e"
  shows "analyze g = Inl e"
  using assms by (simp add: analyze_def Let_def case_prod_beta)

section \<open>Step changes and the net shift\<close>

lemma upt_1_5: "[1 ..< 5] = [1, 2, 3, 4 :: nat]"
  by code_simp

lemma compute_dE_pct_5:
  "compute_dE_pct [e0, e1, e2, e3, e4] =
     [None,
      Some (np_mul (np_div (np_sub e1 e0) e0) (Fin 100)),
      Some (np_mul (np_div (np_sub e2 e1) e1) (Fin 100)),
      Some (np_mul (np_div (np_sub e3 e2) e2) (Fin 100)),
      Some (np_mul (np_div (np_sub e4 e3) e3) (Fin 100))]"
  by (simp add: compute_dE_pct_def upt_1_5)

lemma step_Fin:
  "p \<noteq> 0 \<Longrightarrow> np_mul (np_div (np_sub (Fin c) (Fin p)) (Fin p)) (Fin 100) = Fin ((c - p) / p * 100)"
  by (simp add: np_sub_def)

lemma step_zero_pred:
  "np_mul (np_div (np_sub (Fin c) (Fin 0)) (Fin 0)) (Fin 100) =
     (if c = 0 then NaN else if 0 < c then PInf else NInf)"
  by (simp add: np_sub_def inf_of_sign_def)





text \<open>
  C3. A step whose predecessor \<open>E[i-1]\<close> is zero is not \<^verbatim>\<open>None\<close>: the division gives an
  infinity or a NaN, the filter of \<^verbatim>\<open>net\<close> keeps it, and the sum takes it in. For the
  glucose input \<open>[25.0, 4.0, 4.0, 4.0, 4.0]\<close> the first E is \<open>0\<close>, the first step is
  \<open>+inf\<close>, the other three are \<open>0\<close>, and the net shift is \<open>+inf\<close>, not the sum \<open>0\<close> of the
  three defined steps. When every E is \<open>0\<close> (five times \<open>25.0\<close>), every step and the net
  shift are NaN.
\<close>

theorem zero_predecessor_step_in_net:
  "compute_T_E (map Fin [25, 4, 4, 4, 4]) g_min_default g_max_default =
     (map Fin [0, 483/484, 483/484, 483/484, 483/484], map Fin [1, 1/22, 1/22, 1/22, 1/22]) \<and>
   compute_dE_pct (map Fin [0, 483/484, 483/484, 483/484, 483/484]) =
     [None, Some PInf, Some (Fin 0), Some (Fin 0), Some (Fin 0)] \<and>
   net (steps_of (compute_dE_pct (map Fin [0, 483/484, 483/484, 483/484, 483/484]))) = PInf \<and>
   (\<exists>a. analyze (map Fin [25, 4, 4, 4, 4]) = Inr a \<and>
        a_steps a = [Some PInf, Some (Fin 0), Some (Fin 0), Some (Fin 0)] \<and> a_net a = PInf) \<and>
   compute_dE_pct (map Fin [0, 0, 0, 0, 0]) = [None, Some NaN, Some NaN, Some NaN, Some NaN] \<and>
   net (steps_of (compute_dE_pct (map Fin [0, 0, 0, 0, 0]))) = NaN"
proof -
  have z: "compute_dE_pct (map Fin [0, 0, 0, 0, 0]) = [None, Some NaN, Some NaN, Some NaN, Some NaN]"
    by (simp add: compute_dE_pct_5 step_zero_pred)
  have zn: "net (steps_of (compute_dE_pct (map Fin [0, 0, 0, 0, 0]))) = NaN"
    unfolding z by (simp add: steps_of_def net_def py_sum_def)
  have e: "compute_T_E (map Fin [25, 4, 4, 4, 4]) g_min_default g_max_default =
     (map Fin [0, 483/484, 483/484, 483/484, 483/484], map Fin [1, 1/22, 1/22, 1/22, 1/22])"
    unfolding compute_T_E_Fin by (simp add: power2_eq_square)
  have d: "compute_dE_pct (map Fin [0, 483/484, 483/484, 483/484, 483/484]) =
     [None, Some PInf, Some (Fin 0), Some (Fin 0), Some (Fin 0)]"
    by (simp add: compute_dE_pct_5 step_zero_pred step_Fin)
  have n: "net (steps_of (compute_dE_pct (map Fin [0, 483/484, 483/484, 483/484, 483/484]))) = PInf"
    unfolding d by (simp add: steps_of_def net_def py_sum_def)
  obtain s where s: "classify_with_reason (map Fin [0, 483/484, 483/484, 483/484, 483/484]) = Inr s"
    using classify_Inr[of "map Fin [0, 483/484, 483/484, 483/484, 483/484]"] by auto
  have "classify_with_reason (fst (compute_T_E (map Fin [25, 4, 4, 4, 4]) g_min_default g_max_default)) = Inr s"
    unfolding e using s by simp
  from analyze_Inr[OF this] have
    "analyze (map Fin [25, 4, 4, 4, 4]) =
      Inr \<lparr>a_summary = s,
           a_steps = steps_of (compute_dE_pct (map Fin [0, 483/484, 483/484, 483/484, 483/484])),
           a_net = net (steps_of (compute_dE_pct (map Fin [0, 483/484, 483/484, 483/484, 483/484]))),
           a_guidance = detailed_guidance (status s)\<rparr>"
    unfolding e by simp
  then have "\<exists>a. analyze (map Fin [25, 4, 4, 4, 4]) = Inr a \<and>
        a_steps a = [Some PInf, Some (Fin 0), Some (Fin 0), Some (Fin 0)] \<and> a_net a = PInf"
    unfolding n unfolding d by (simp add: steps_of_def)
  with e d n z zn show ?thesis by blast
qed

section \<open>Inputs of any length\<close>

lemma compute_T_E_length:
  "length (fst (compute_T_E g lo hi)) = length g" "length (snd (compute_T_E g lo hi)) = length g"
  by (simp_all add: compute_T_E_def Let_def)

lemma compute_dE_pct_length: "length (compute_dE_pct E) = Suc (length E - 1)"
  by (simp add: compute_dE_pct_def)

text \<open>
  C6, as stated, fails: an input of 4 values is not rejected. The analysis of
  \<open>[4.0, 6.0, 7.0, 6.5]\<close> returns a result, with status GREEN and 3 step changes.
\<close>

theorem no_length_validation_counterexample:
  "length (map Fin [4, 6, 7, 13/2]) \<noteq> 5 \<and>
   \<not> isl (analyze (map Fin [4, 6, 7, 13/2])) \<and>
   status (a_summary (projr (analyze (map Fin [4, 6, 7, 13/2])))) = ''GREEN'' \<and>
   E_mean_rel (a_summary (projr (analyze (map Fin [4, 6, 7, 13/2])))) = Fin (189775 / 1932) \<and>
   length (a_steps (projr (analyze (map Fin [4, 6, 7, 13/2])))) = 3"
proof -
  have e: "fst (compute_T_E (map Fin [4, 6, 7, 13/2]) g_min_default g_max_default) =
      map Fin [483/484, 475/484, 468/484, 1887/1936]"
    unfolding compute_T_E_Fin by (simp add: power2_eq_square)
  obtain s where s: "classify_with_reason (map Fin [483/484, 475/484, 468/484, 1887/1936]) = Inr s"
    using classify_Inr[of "map Fin [483/484, 475/484, 468/484, 1887/1936]"] by auto
  have r: "E_mean_rel s = Fin (189775 / 1932)" using E_mean_rel_Fin[OF _ s] by simp
  have st: "status s = ''GREEN''" using classify_fields(6)[OF s] by (simp add: r np_ge_Fin)
  have "classify_with_reason (fst (compute_T_E (map Fin [4, 6, 7, 13/2]) g_min_default g_max_default)) = Inr s"
    unfolding e by (rule s)
  note a = analyze_Inr[OF this]
  have l: "length (a_steps (projr (analyze (map Fin [4, 6, 7, 13/2])))) = 3"
    unfolding a by (simp add: steps_of_def compute_dE_pct_length compute_T_E_length)
  have 1: "\<not> isl (analyze (map Fin [4, 6, 7, 13/2]))" unfolding a by simp
  have 2: "status (a_summary (projr (analyze (map Fin [4, 6, 7, 13/2])))) = ''GREEN''"
    unfolding a by (simp add: st)
  have 3: "E_mean_rel (a_summary (projr (analyze (map Fin [4, 6, 7, 13/2])))) = Fin (189775 / 1932)"
    unfolding a by (simp add: r)
  from 1 2 3 l show ?thesis by simp
qed

text \<open>
  C6, amended. The engine does not check the length of its input. Every non-empty
  input of any length is analysed as it is: \<open>T\<close> and \<open>E\<close> have the length of the
  input, there is one step per consecutive pair, the summary is taken over the whole
  of \<open>E\<close>, and no error is signalled. Only the empty input fails, with the IndexError
  of \<^verbatim>\<open>E[0]\<close>.
\<close>

theorem analyze_any_length:
  "(g \<noteq> [] \<longrightarrow>
      (\<exists>a. analyze g = Inr a \<and>
           length (a_steps a) = length g - 1 \<and>
           E_pre (a_summary a) = fst (compute_T_E g g_min_default g_max_default) ! 0 \<and>
           E_min (a_summary a) = np_min (fst (compute_T_E g g_min_default g_max_default)) \<and>
           E_mean (a_summary a) = np_mean (fst (compute_T_E g g_min_default g_max_default)))) \<and>
   (g = [] \<longrightarrow> analyze g = Inl IndexError) \<and>
   length (fst (compute_T_E g g_min_default g_max_default)) = length g \<and>
   length (snd (compute_T_E g g_min_default g_max_default)) = length g"
proof -
  let ?E = "fst (compute_T_E g g_min_default g_max_default)"
  have A: "g \<noteq> [] \<longrightarrow>
      (\<exists>a. analyze g = Inr a \<and>
           length (a_steps a) = length g - 1 \<and>
           E_pre (a_summary a) = ?E ! 0 \<and>
           E_min (a_summary a) = np_min ?E \<and>
           E_mean (a_summary a) = np_mean ?E)"
  proof
    assume "g \<noteq> []"
    then have "?E \<noteq> []" using compute_T_E_length(1)[of g g_min_default g_max_default] by auto
    from classify_Inr[OF this] obtain s where s: "classify_with_reason ?E = Inr s" by blast
    have l: "length (steps_of (compute_dE_pct ?E)) = length g - 1"
      by (simp add: steps_of_def compute_dE_pct_length compute_T_E_length)
    show "\<exists>a. analyze g = Inr a \<and>
           length (a_steps a) = length g - 1 \<and>
           E_pre (a_summary a) = ?E ! 0 \<and>
           E_min (a_summary a) = np_min ?E \<and>
           E_mean (a_summary a) = np_mean ?E"
      using analyze_Inr[OF s] l classify_fields(2,3,4)[OF s] by simp
  qed
  have B: "g = [] \<longrightarrow> analyze g = Inl IndexError"
  proof
    assume "g = []"
    then have "classify_with_reason ?E = Inl IndexError"
      by (simp add: compute_T_E_def Let_def classify_empty)
    then show "analyze g = Inl IndexError" by (rule analyze_Inl)
  qed
  from A B compute_T_E_length[of g g_min_default g_max_default] show ?thesis by blast
qed

theorem analyze_any_length_witness:
  "map Fin [4, 6, 7, 13/2] \<noteq> [] \<and>
   (\<exists>a. analyze (map Fin [4, 6, 7, 13/2]) = Inr a \<and> length (a_steps a) = 3) \<and>
   length (fst (compute_T_E (map Fin [4, 6, 7, 13/2]) g_min_default g_max_default)) = 4 \<and>
   map Fin [4, 6, 7, 13/2, 11/2, 5] \<noteq> [] \<and>
   (\<exists>a. analyze (map Fin [4, 6, 7, 13/2, 11/2, 5]) = Inr a \<and> length (a_steps a) = 5) \<and>
   length (fst (compute_T_E (map Fin [4, 6, 7, 13/2, 11/2, 5]) g_min_default g_max_default)) = 6 \<and>
   analyze [] = Inl IndexError"
proof -
  note a = analyze_any_length[of "map Fin [4, 6, 7, 13/2]"]
  note b = analyze_any_length[of "map Fin [4, 6, 7, 13/2, 11/2, 5]"]
  note c = analyze_any_length[of "[]"]
  have a1: "\<exists>a. analyze (map Fin [4, 6, 7, 13/2]) = Inr a \<and> length (a_steps a) = 3"
    using conjunct1[OF a] by auto
  have a2: "length (fst (compute_T_E (map Fin [4, 6, 7, 13/2]) g_min_default g_max_default)) = 4"
    using conjunct1[OF conjunct2[OF conjunct2[OF a]]] by simp
  have b1: "\<exists>a. analyze (map Fin [4, 6, 7, 13/2, 11/2, 5]) = Inr a \<and> length (a_steps a) = 5"
    using conjunct1[OF b] by auto
  have b2: "length (fst (compute_T_E (map Fin [4, 6, 7, 13/2, 11/2, 5]) g_min_default g_max_default)) = 6"
    using conjunct1[OF conjunct2[OF conjunct2[OF b]]] by simp
  have c1: "analyze [] = Inl IndexError"
    using conjunct1[OF conjunct2[OF c]] by simp
  from a1 a2 b1 b2 c1 show ?thesis by simp
qed

section \<open>Rounding to binary64\<close>

lemma lg2_floor_log: "0 < x \<Longrightarrow> lg2 x = \<lfloor>log 2 x\<rfloor>"
proof (induction x rule: lg2.induct)
  case (1 x)
  show ?case
  proof (cases "x < 1")
    case True
    have "log 2 (2 * x) = 1 + log 2 x" using "1.prems" by (simp add: log_mult)
    then have f: "\<lfloor>log 2 (2 * x)\<rfloor> = \<lfloor>log 2 x\<rfloor> + 1" by simp
    have "lg2 (2 * x) = \<lfloor>log 2 (2 * x)\<rfloor>" using "1.IH"(1) "1.prems" True by simp
    then show ?thesis using True "1.prems" by (subst lg2.simps) (simp add: f)
  next
    case False
    show ?thesis
    proof (cases "2 \<le> x")
      case True
      have "log 2 (x / 2) = log 2 x - 1" using "1.prems" by (simp add: log_divide)
      then have f: "\<lfloor>log 2 (x / 2)\<rfloor> = \<lfloor>log 2 x\<rfloor> - 1" by simp
      have "lg2 (x / 2) = \<lfloor>log 2 (x / 2)\<rfloor>" using "1.IH"(2) "1.prems" False True by simp
      then show ?thesis using True False "1.prems" by (subst lg2.simps) (simp add: f)
    next
      case F2: False
      have "0 \<le> log 2 x" using False by simp
      moreover have "log 2 x < 1" using F2 "1.prems" by (simp add: log_less_iff)
      ultimately have "\<lfloor>log 2 x\<rfloor> = 0" by linarith
      then show ?thesis using False F2 "1.prems" by (subst lg2.simps) simp
    qed
  qed
qed

lemma rne_cases: "rne x = \<lfloor>x\<rfloor> \<or> rne x = \<lfloor>x\<rfloor> + 1"
  by (simp add: rne_def Let_def)

lemma rne_lower: "x - 1/2 \<le> of_int (rne x)"
  unfolding rne_def Let_def by (auto; linarith)


lemma rne_of_int: "rne (of_int n) = n"
  by (simp add: rne_def)

lemma rne_ge_int: "of_int n \<le> x \<Longrightarrow> n \<le> rne x"
  unfolding rne_def Let_def by (auto simp add: le_floor_iff; linarith)

lemma rne_le_int: "x \<le> of_int n \<Longrightarrow> rne x \<le> n"
proof -
  assume a: "x \<le> of_int n"
  show ?thesis
  proof (cases "x = of_int n")
    case True then show ?thesis by (simp add: rne_of_int)
  next
    case False
    with a have "x < of_int n" by simp
    then have "\<lfloor>x\<rfloor> < n" by (simp add: floor_less_iff)
    then have "\<lfloor>x\<rfloor> + 1 \<le> n" by simp
    with rne_cases[of x] show ?thesis by auto
  qed
qed

lemma rne_mono: "x \<le> y \<Longrightarrow> rne x \<le> rne y"
proof -
  assume xy: "x \<le> y"
  have fl: "\<lfloor>x\<rfloor> \<le> \<lfloor>y\<rfloor>" using xy by (rule floor_mono)
  show ?thesis
  proof (cases "\<lfloor>x\<rfloor> = \<lfloor>y\<rfloor>")
    case True
    then have "x - of_int \<lfloor>x\<rfloor> \<le> y - of_int \<lfloor>y\<rfloor>" using xy by simp
    then show ?thesis unfolding rne_def Let_def using True by auto
  next
    case False
    with fl have "\<lfloor>x\<rfloor> + 1 \<le> \<lfloor>y\<rfloor>" by simp
    moreover have "rne x \<le> \<lfloor>x\<rfloor> + 1" using rne_cases[of x] by auto
    moreover have "\<lfloor>y\<rfloor> \<le> rne y" using rne_cases[of y] by auto
    ultimately show ?thesis by linarith
  qed
qed

lemma floor_log2_bounds:
  assumes "x \<noteq> 0"
  shows "2 powr of_int \<lfloor>log 2 \<bar>x\<bar>\<rfloor> \<le> \<bar>x\<bar>" "\<bar>x\<bar> < 2 powr (of_int \<lfloor>log 2 \<bar>x\<bar>\<rfloor> + 1)"
proof -
  have pos: "0 < \<bar>x\<bar>" using assms by simp
  have c: "2 powr log 2 \<bar>x\<bar> = \<bar>x\<bar>" using pos by simp
  have "2 powr of_int \<lfloor>log 2 \<bar>x\<bar>\<rfloor> \<le> 2 powr log 2 \<bar>x\<bar>"
    by (rule powr_mono) simp_all
  then show "2 powr of_int \<lfloor>log 2 \<bar>x\<bar>\<rfloor> \<le> \<bar>x\<bar>" unfolding c .
  have "log 2 \<bar>x\<bar> < of_int \<lfloor>log 2 \<bar>x\<bar>\<rfloor> + 1" by linarith
  then have "2 powr log 2 \<bar>x\<bar> < 2 powr (of_int \<lfloor>log 2 \<bar>x\<bar>\<rfloor> + 1)"
    by (rule powr_less_mono) simp
  then show "\<bar>x\<bar> < 2 powr (of_int \<lfloor>log 2 \<bar>x\<bar>\<rfloor> + 1)" unfolding c .
qed

lemma floor_log2_eq:
  assumes "2 powr of_int k \<le> \<bar>x\<bar>" "\<bar>x\<bar> < 2 powr (of_int k + 1)"
  shows "\<lfloor>log 2 \<bar>x\<bar>\<rfloor> = k"
proof -
  have pos: "0 < \<bar>x\<bar>" using assms(1) powr_gt_zero[of 2 "of_int k"] by linarith
  have "of_int k \<le> log 2 \<bar>x\<bar>" using assms(1) pos by (simp add: le_log_iff)
  moreover have "log 2 \<bar>x\<bar> < of_int k + 1" using assms(2) pos by (simp add: log_less_iff)
  ultimately show ?thesis by linarith
qed

lemma fl64_log:
  "fl64 x = (if x = 0 then 0
     else let e = \<lfloor>log 2 \<bar>x\<bar>\<rfloor> - 52 in of_int (rne (x / 2 powr of_int e)) * 2 powr of_int e)"
proof (cases "x = 0")
  case True
  then show ?thesis by (simp add: fl64_def)
next
  case False
  then have "lg2 \<bar>x\<bar> = \<lfloor>log 2 \<bar>x\<bar>\<rfloor>" by (intro lg2_floor_log) simp
  moreover have "\<And>e::int. (2::real) powr of_int e = 2 powi e"
    by (simp add: powr_real_of_int')
  ultimately show ?thesis using False by (simp add: fl64_def Let_def)
qed

lemma fl64_zero: "fl64 0 = 0"
  by (simp add: fl64_def)

lemma fl64_at:
  assumes "2 powr of_int k \<le> \<bar>x\<bar>" "\<bar>x\<bar> < 2 powr (of_int k + 1)"
  shows "fl64 x = of_int (rne (x / 2 powr of_int (k - 52))) * 2 powr of_int (k - 52)"
proof -
  have "x \<noteq> 0" using assms(1) powr_gt_zero[of 2 "of_int k"] by auto
  then show ?thesis by (simp add: fl64_log Let_def floor_log2_eq[OF assms])
qed

lemma fl64_scaled:
  fixes n :: nat
  assumes "2 ^ 52 \<le> \<bar>x\<bar> * 2 ^ n" "\<bar>x\<bar> * 2 ^ n < 2 ^ 53"
  shows "fl64 x = of_int (rne (x * 2 ^ n)) / 2 ^ n"
proof -
  have p: "(2::real) powr of_int (52 - int n) = 2 ^ 52 / 2 ^ n"
    by (simp add: powr_diff powr_realpow)
  have q: "(2::real) powr (of_int (52 - int n) + 1) = 2 ^ 53 / 2 ^ n"
    by (simp add: powr_diff powr_add powr_realpow)
  have a: "2 powr of_int (52 - int n) \<le> \<bar>x\<bar>"
    unfolding p using assms(1) by (simp add: pos_divide_le_eq)
  have b: "\<bar>x\<bar> < 2 powr (of_int (52 - int n) + 1)"
    unfolding q using assms(2) by (simp add: pos_less_divide_eq)
  have r: "(2::real) powr of_int (52 - int n - 52) = 1 / 2 ^ n"
    by (simp add: powr_minus powr_realpow inverse_eq_divide)
  show ?thesis unfolding fl64_at[OF a b] r by simp
qed

lemma fl64_pos_form:
  assumes "0 < x"
  obtains k :: int where "2 powr of_int k \<le> x" "x < 2 powr (of_int k + 1)"
    "fl64 x = of_int (rne (x / 2 powr of_int (k - 52))) * 2 powr of_int (k - 52)"
    "2 ^ 52 \<le> x / 2 powr of_int (k - 52)" "x / 2 powr of_int (k - 52) \<le> 2 ^ 53"
proof -
  let ?k = "\<lfloor>log 2 \<bar>x\<bar>\<rfloor>"
  have ne: "x \<noteq> 0" and ab: "\<bar>x\<bar> = x" using assms by simp_all
  have a: "2 powr of_int ?k \<le> x" using floor_log2_bounds(1)[OF ne] ab by simp
  have b: "x < 2 powr (of_int ?k + 1)" using floor_log2_bounds(2)[OF ne] ab by simp
  have f: "fl64 x = of_int (rne (x / 2 powr of_int (?k - 52))) * 2 powr of_int (?k - 52)"
    using ne by (simp add: fl64_log Let_def)
  have s: "(2::real) powr of_int (?k - 52) = 2 powr of_int ?k / 2 ^ 52"
    by (simp add: powr_diff)
  have s1: "(2::real) powr (of_int ?k + 1) = 2 powr of_int ?k * 2"
    by (simp add: powr_add)
  have pk: "0 < (2::real) powr of_int ?k" by simp
  have c: "2 ^ 52 \<le> x / 2 powr of_int (?k - 52)"
    unfolding s using a pk by (simp add: pos_le_divide_eq)
  have d: "x / 2 powr of_int (?k - 52) \<le> 2 ^ 53"
    unfolding s using b pk unfolding s1 by (simp add: pos_divide_le_eq)
  from that[OF a b f c d] show ?thesis .
qed

lemma fl64_lower:
  assumes "0 < x"
  shows "x * (1 - 1 / 2 ^ 53) \<le> fl64 x"
proof -
  from fl64_pos_form[OF assms] obtain k :: int where
    f: "fl64 x = of_int (rne (x / 2 powr of_int (k - 52))) * 2 powr of_int (k - 52)"
    and c: "2 ^ 52 \<le> x / 2 powr of_int (k - 52)" by blast
  define s where "s = (2::real) powr of_int (k - 52)"
  define m where "m = x / s"
  have sp: "0 < s" by (simp add: s_def)
  have xm: "x = m * s" using sp by (simp add: m_def)
  have m52: "2 ^ 52 \<le> m" using c by (simp add: m_def s_def)
  have "m - 1/2 \<le> of_int (rne m)" by (rule rne_lower)
  moreover have "m * (1 - 1 / 2 ^ 53) \<le> m - 1/2" using m52 by (simp add: algebra_simps)
  ultimately have "m * (1 - 1 / 2 ^ 53) \<le> of_int (rne m)" by linarith
  then have "m * (1 - 1 / 2 ^ 53) * s \<le> of_int (rne m) * s"
    using sp by (simp only: mult_le_cancel_right_pos)
  moreover have "fl64 x = of_int (rne m) * s" unfolding f by (simp add: s_def m_def)
  moreover have "x * (1 - 1 / 2 ^ 53) = m * (1 - 1 / 2 ^ 53) * s" by (simp add: xm)
  ultimately show ?thesis by simp
qed


lemma fl64_pos: "0 < x \<Longrightarrow> 0 < fl64 x"
proof -
  assume a: "0 < x"
  have "0 < x * (1 - 1 / 2 ^ 53)" using a by simp
  with fl64_lower[OF a] show ?thesis by linarith
qed

lemma fl64_nonneg: "0 \<le> x \<Longrightarrow> 0 \<le> fl64 x"
  using fl64_pos[of x] fl64_zero by (cases "x = 0") auto

lemma fl64_binade:
  assumes "0 < x" "2 powr of_int k \<le> x" "x < 2 powr (of_int k + 1)"
  shows "2 powr of_int k \<le> fl64 x" "fl64 x \<le> 2 powr (of_int k + 1)"
proof -
  have ab: "\<bar>x\<bar> = x" using assms(1) by simp
  have f: "fl64 x = of_int (rne (x / 2 powr of_int (k - 52))) * 2 powr of_int (k - 52)"
    using fl64_at[of k x] assms ab by simp
  define s where "s = (2::real) powr of_int (k - 52)"
  have sp: "0 < s" by (simp add: s_def)
  have ks: "(2::real) powr of_int k = 2 ^ 52 * s" by (simp add: s_def powr_diff)
  have ks1: "(2::real) powr (of_int k + 1) = 2 ^ 53 * s" by (simp add: s_def powr_diff powr_add)
  have lo: "of_int (2 ^ 52) \<le> x / s"
    using assms(2) sp unfolding ks by (simp add: pos_le_divide_eq)
  have hi: "x / s \<le> of_int (2 ^ 53)"
    using assms(3) sp unfolding ks1 by (simp add: pos_divide_le_eq)
  have "2 ^ 52 \<le> rne (x / s)" by (rule rne_ge_int[OF lo])
  then have "(of_int (2 ^ 52) :: real) \<le> of_int (rne (x / s))" by (simp only: of_int_le_iff)
  then have "(2 ^ 52 :: real) \<le> of_int (rne (x / s))" by simp
  then have "2 ^ 52 * s \<le> of_int (rne (x / s)) * s"
    using sp by (simp only: mult_le_cancel_right_pos)
  then show "2 powr of_int k \<le> fl64 x" unfolding f ks s_def[symmetric] .
  have "rne (x / s) \<le> 2 ^ 53" by (rule rne_le_int[OF hi])
  then have "(of_int (rne (x / s)) :: real) \<le> of_int (2 ^ 53)" by (simp only: of_int_le_iff)
  then have "of_int (rne (x / s)) \<le> (2 ^ 53 :: real)" by simp
  then have "of_int (rne (x / s)) * s \<le> 2 ^ 53 * s"
    using sp by (simp only: mult_le_cancel_right_pos)
  then show "fl64 x \<le> 2 powr (of_int k + 1)" unfolding f ks1 s_def[symmetric] .
qed

lemma fl64_mono_pos:
  assumes "0 < x" "x \<le> y"
  shows "fl64 x \<le> fl64 y"
proof -
  have y: "0 < y" using assms by simp
  let ?kx = "\<lfloor>log 2 \<bar>x\<bar>\<rfloor>" and ?ky = "\<lfloor>log 2 \<bar>y\<bar>\<rfloor>"
  have ax: "\<bar>x\<bar> = x" and ay: "\<bar>y\<bar> = y" using assms y by simp_all
  have bx: "2 powr of_int ?kx \<le> x" "x < 2 powr (of_int ?kx + 1)"
    using floor_log2_bounds[of x] assms(1) ax by simp_all
  have by': "2 powr of_int ?ky \<le> y" "y < 2 powr (of_int ?ky + 1)"
    using floor_log2_bounds[of y] y ay by simp_all
  have "log 2 x \<le> log 2 y" using assms by simp
  then have kk: "?kx \<le> ?ky" unfolding ax ay by (rule floor_mono)
  show ?thesis
  proof (cases "?kx = ?ky")
    case True
    define s where "s = (2::real) powr of_int (?kx - 52)"
    have sp: "0 < s" by (simp add: s_def)
    have fx: "fl64 x = of_int (rne (x / s)) * s"
      using assms(1) by (simp add: fl64_log Let_def s_def)
    have fy: "fl64 y = of_int (rne (y / s)) * s"
      using y True by (simp add: fl64_log Let_def s_def)
    have "x / s \<le> y / s" using assms(2) sp by (simp add: divide_right_mono)
    then have "rne (x / s) \<le> rne (y / s)" by (rule rne_mono)
    then have "(of_int (rne (x / s)) :: real) \<le> of_int (rne (y / s))" by simp
    then show ?thesis unfolding fx fy using sp by (simp only: mult_le_cancel_right_pos)
  next
    case False
    with kk have "?kx + 1 \<le> ?ky" by simp
    then have "(of_int ?kx :: real) + 1 \<le> of_int ?ky" by linarith
    then have "(2::real) powr (of_int ?kx + 1) \<le> 2 powr of_int ?ky"
      by (intro powr_mono) simp_all
    moreover have "fl64 x \<le> 2 powr (of_int ?kx + 1)"
      by (rule fl64_binade(2)[OF assms(1) bx])
    moreover have "2 powr of_int ?ky \<le> fl64 y"
      by (rule fl64_binade(1)[OF y by'])
    ultimately show ?thesis by linarith
  qed
qed

lemma fl64_mono_nonneg: "0 \<le> x \<Longrightarrow> x \<le> y \<Longrightarrow> fl64 x \<le> fl64 y"
  using fl64_mono_pos[of x y] fl64_nonneg[of y] fl64_zero by (cases "x = 0") auto

section \<open>The rounded engine\<close>


lemma fsub_Fin: "fsub (Fin a) (Fin b) = Fin (fl64 (a - b))"
  by (simp add: fsub_def rnd_def np_sub_def)

lemma fmul_Fin: "fmul (Fin a) (Fin b) = Fin (fl64 (a * b))"
  by (simp add: fmul_def rnd_def)

lemma fdiv_Fin: "b \<noteq> 0 \<Longrightarrow> fdiv (Fin a) (Fin b) = Fin (fl64 (a / b))"
  by (simp add: fdiv_def rnd_def)

lemma fl64_1: "fl64 1 = 1"
  by (subst fl64_scaled[where n=52]) (simp_all add: rne_def Let_def)

lemma fl64_22: "fl64 22 = 22"
  by (subst fl64_scaled[where n=48]) (simp_all add: rne_def Let_def)

lemma fl64_25_3: "fl64 (25 - 3) = 22"
  using fl64_22 by simp

lemma T_of_f64_Fin:
  "T_of_f64 g_min_default g_max_default (Fin g) = Fin (min (max (fl64 (fl64 (g - 3) / 22)) 0) 1)"
  by (simp add: T_of_f64_def g_min_default_def g_max_default_def fsub_Fin fdiv_Fin fl64_22
      np_clip_def np_maximum_Fin np_minimum_Fin)

lemma E_of_f64_Fin: "E_of_f64 (Fin t) = Fin (fl64 (1 - fl64 (t * t)))"
  by (simp add: E_of_f64_def fsub_Fin fmul_Fin)

lemma compute_T_E_f64_Fin:
  "compute_T_E_f64 (map Fin gs) g_min_default g_max_default =
     (map (\<lambda>g. Fin (fl64 (1 - fl64 (min (max (fl64 (fl64 (g - 3) / 22)) 0) 1 *
                                    min (max (fl64 (fl64 (g - 3) / 22)) 0) 1)))) gs,
      map (\<lambda>g. Fin (min (max (fl64 (fl64 (g - 3) / 22)) 0) 1)) gs)"
  by (simp add: compute_T_E_f64_def Let_def T_of_f64_Fin E_of_f64_Fin comp_def)



lemma foldl_fl64_nonneg:
  "(\<And>x. x \<in> set rs \<Longrightarrow> 0 \<le> x) \<Longrightarrow> 0 \<le> acc \<Longrightarrow>
     0 \<le> foldl (\<lambda>a b. fl64 (a + b)) acc rs"
proof (induction rs arbitrary: acc)
  case Nil
  then show ?case by simp
next
  case (Cons r rs)
  have "0 \<le> acc + r" using Cons.prems by simp
  then have "0 \<le> fl64 (acc + r)" by (rule fl64_nonneg)
  then show ?case using Cons by simp
qed












section \<open>The index mapper under rounding\<close>

text \<open>The roundings along \<open>g = 3 + 2\<^sup>-\<^sup>3\<^sup>0\<close>, each checked against the definition.\<close>

lemma ev_a1: "fl64 (3221225473/1073741824 - 3) = 1/1073741824"
  by (subst fl64_scaled[where n=82]) (simp_all add: rne_def Let_def)

lemma ev_a2: "fl64 (1/1073741824 / 22) = 3275345183542179/77371252455336267181195264"
  by (subst fl64_scaled[where n=87]) (simp_all add: rne_def Let_def)

lemma ev_a3: "fl64 (3275345183542179/77371252455336267181195264 * (3275345183542179/77371252455336267181195264))
   = 297758653049289/166153499473114484112975882535043072"
  by (subst fl64_scaled[where n=121]) (simp_all add: rne_def Let_def)

lemma ev_a4: "fl64 (1 - 297758653049289/166153499473114484112975882535043072) = 1"
  by (subst fl64_scaled[where n=53]) (simp_all add: rne_def Let_def)

lemma ev_a0: "fl64 (3221225473/1073741824) = 3221225473/1073741824"
  by (subst fl64_scaled[where n=51]) (simp_all add: rne_def Let_def)

lemma T_E_f64_3: "T_of_f64 g_min_default g_max_default (Fin 3) = Fin 0" "E_of_f64 (Fin 0) = Fin 1"
  by (simp_all add: T_of_f64_Fin E_of_f64_Fin fl64_zero fl64_1)

lemma T_E_f64_25: "T_of_f64 g_min_default g_max_default (Fin 25) = Fin 1" "E_of_f64 (Fin 1) = Fin 0"
  by (simp_all add: T_of_f64_Fin E_of_f64_Fin fl64_zero fl64_1 fl64_22)

lemma g30: "(3 + 1 / 2 ^ 30 :: real) = 3221225473/1073741824"
  by simp

lemma T_E_f64_g30:
  "T_of_f64 g_min_default g_max_default (Fin (3 + 1 / 2 ^ 30)) =
      Fin (3275345183542179/77371252455336267181195264)"
  "E_of_f64 (Fin (3275345183542179/77371252455336267181195264)) = Fin 1"
proof -
  show "T_of_f64 g_min_default g_max_default (Fin (3 + 1 / 2 ^ 30)) =
      Fin (3275345183542179/77371252455336267181195264)"
    unfolding g30 T_of_f64_Fin ev_a1 ev_a2 by simp
  show "E_of_f64 (Fin (3275345183542179/77371252455336267181195264)) = Fin 1"
    unfolding E_of_f64_Fin ev_a3 ev_a4 by simp
qed

text \<open>
  C5, as stated, fails on float64: for \<open>g = 3 + 2\<^sup>-\<^sup>3\<^sup>0\<close> (about \<open>3.0000000009\<close>), a
  binary64 value strictly between 3 and 25, \<open>T\<^sup>2\<close> is below half a unit in the last place
  of 1, and \<open>E = 1.0 - T\<^sup>2\<close> is exactly \<open>1.0\<close>, not below 1.
\<close>

theorem E_not_below_one_counterexample:
  "3 < (3 + 1 / 2 ^ 30 :: real) \<and> (3 + 1 / 2 ^ 30 :: real) < 25 \<and>
   fl64 (3 + 1 / 2 ^ 30) = 3 + 1 / 2 ^ 30 \<and>
   compute_T_E_f64 [Fin (3 + 1 / 2 ^ 30)] g_min_default g_max_default =
     ([Fin 1], [Fin (3275345183542179/77371252455336267181195264)])"
proof -
  have "compute_T_E_f64 [Fin (3 + 1 / 2 ^ 30)] g_min_default g_max_default =
     ([Fin 1], [Fin (3275345183542179/77371252455336267181195264)])"
    by (simp only: compute_T_E_f64_def Let_def list.map T_E_f64_g30)
  moreover have "fl64 (3 + 1 / 2 ^ 30) = 3 + 1 / 2 ^ 30" unfolding g30 by (rule ev_a0)
  ultimately show ?thesis by simp
qed

lemma f64_below_25:
  assumes "fl64 g = g" "g < 25"
  shows "g \<le> 25 - 1 / 2 ^ 48"
proof (cases "g < 16")
  case True
  then show ?thesis by simp
next
  case False
  then have g16: "16 \<le> g" by simp
  have a: "2 ^ 52 \<le> \<bar>g\<bar> * 2 ^ 48" using g16 by simp
  have b: "\<bar>g\<bar> * 2 ^ 48 < 2 ^ 53" using g16 assms(2) by simp
  define N where "N = rne (g * 2 ^ 48)"
  have "g = of_int N / 2 ^ 48"
    using fl64_scaled[OF a b] assms(1) by (simp add: N_def)
  then have gN: "g * 2 ^ 48 = of_int N" by simp
  have "of_int N < (25 * 2 ^ 48 :: real)" using assms(2) gN[symmetric] by simp
  then have "of_int N < (of_int (25 * 2 ^ 48) :: real)" by simp
  then have "N < 25 * 2 ^ 48" by (simp only: of_int_less_iff)
  then have "N \<le> 25 * 2 ^ 48 - 1" by simp
  then have "(of_int N :: real) \<le> of_int (25 * 2 ^ 48 - 1)" by (simp only: of_int_le_iff)
  then have "g * 2 ^ 48 \<le> 25 * 2 ^ 48 - 1" unfolding gN by simp
  then show ?thesis by (simp add: field_simps)
qed

lemma ev_c1: "fl64 (22 - 1 / 2 ^ 48) = 22 - 1 / 2 ^ 48"
  by (subst fl64_scaled[where n=48]) (simp_all add: rne_def Let_def)

lemma ev_c2: "fl64 ((22 - 1 / 2 ^ 48) / 22) = 1 - 1 / 2 ^ 53"
  by (subst fl64_scaled[where n=53]) (simp_all add: rne_def Let_def)

lemma ev_c3: "fl64 ((1 - 1 / 2 ^ 53) * (1 - 1 / 2 ^ 53)) = 1 - 1 / 2 ^ 52"
  by (subst fl64_scaled[where n=53]) (simp_all add: rne_def Let_def)

lemma T_raw_bounds:
  assumes "fl64 g = g" "3 < g" "g < 25"
  shows "0 < fl64 (fl64 (g - 3) / 22)" "fl64 (fl64 (g - 3) / 22) \<le> 1 - 1 / 2 ^ 53"
proof -
  have p: "0 < g - 3" using assms(2) by simp
  have d: "0 < fl64 (g - 3)" by (rule fl64_pos[OF p])
  then have "0 < fl64 (g - 3) / 22" by simp
  then show "0 < fl64 (fl64 (g - 3) / 22)" by (rule fl64_pos)
  have "g - 3 \<le> 22 - 1 / 2 ^ 48" using f64_below_25[OF assms(1,3)] by simp
  then have "fl64 (g - 3) \<le> fl64 (22 - 1 / 2 ^ 48)" by (rule fl64_mono_pos[OF p])
  then have "fl64 (g - 3) \<le> 22 - 1 / 2 ^ 48" unfolding ev_c1 .
  then have "fl64 (g - 3) / 22 \<le> (22 - 1 / 2 ^ 48) / 22" by (simp add: divide_right_mono)
  then have "fl64 (fl64 (g - 3) / 22) \<le> fl64 ((22 - 1 / 2 ^ 48) / 22)"
    using \<open>0 < fl64 (g - 3) / 22\<close> by (intro fl64_mono_pos)
  then show "fl64 (fl64 (g - 3) / 22) \<le> 1 - 1 / 2 ^ 53" unfolding ev_c2 .
qed

lemma E_bounds:
  assumes "0 \<le> t" "t \<le> 1"
  shows "0 \<le> fl64 (1 - fl64 (t * t))" "fl64 (1 - fl64 (t * t)) \<le> 1"
proof -
  have tt: "0 \<le> t * t" "t * t \<le> 1" using assms by (simp_all add: mult_le_one)
  have a: "0 \<le> fl64 (t * t)" by (rule fl64_nonneg[OF tt(1)])
  have "fl64 (t * t) \<le> fl64 1" by (rule fl64_mono_nonneg[OF tt])
  then have b: "fl64 (t * t) \<le> 1" by (simp add: fl64_1)
  from b have c: "0 \<le> 1 - fl64 (t * t)" by simp
  then show "0 \<le> fl64 (1 - fl64 (t * t))" by (rule fl64_nonneg)
  have "fl64 (1 - fl64 (t * t)) \<le> fl64 1"
    by (rule fl64_mono_nonneg[OF c]) (use a in simp)
  then show "fl64 (1 - fl64 (t * t)) \<le> 1" by (simp add: fl64_1)
qed

lemma E_pos:
  assumes "0 \<le> t" "t \<le> 1 - 1 / 2 ^ 53"
  shows "0 < fl64 (1 - fl64 (t * t))"
proof -
  have "t * t \<le> (1 - 1 / 2 ^ 53) * (1 - 1 / 2 ^ 53)"
    using assms by (intro mult_mono) simp_all
  moreover have "0 \<le> t * t" using assms(1) by simp
  ultimately have "fl64 (t * t) \<le> fl64 ((1 - 1 / 2 ^ 53) * (1 - 1 / 2 ^ 53))"
    by (intro fl64_mono_nonneg)
  then have "fl64 (t * t) \<le> 1 - 1 / 2 ^ 52" unfolding ev_c3 .
  then have "0 < 1 - fl64 (t * t)" by simp
  then show ?thesis by (rule fl64_pos)
qed

text \<open>
  C5, amended. For every binary64 glucose value \<open>g\<close> and the default bounds, \<open>T\<close> is
  \<open>(g - 3.0) / (25.0 - 3.0)\<close> clamped to \<open>[0, 1]\<close> and \<open>E\<close> is \<open>1.0 - T\<^sup>2\<close>, each operation
  rounded; \<open>g = 3\<close> gives \<open>T = 0\<close> and \<open>E = 1\<close>, \<open>g = 25\<close> gives \<open>T = 1\<close> and \<open>E = 0\<close>; for
  \<open>3 < g < 25\<close>, \<open>T\<close> is strictly between 0 and 1 and \<open>E\<close> is above 0 and at most 1: \<open>E\<close>
  can be exactly 1.
\<close>

theorem compute_T_E_f64_values:
  assumes "compute_T_E_f64 (map Fin gs) g_min_default g_max_default = (E, T)"
    and "i < length gs" and "fl64 (gs ! i) = gs ! i"
  shows "length E = length gs \<and> length T = length gs \<and>
    (\<exists>t e. T ! i = Fin t \<and> E ! i = Fin e \<and>
         t = min (max (fl64 (fl64 (gs ! i - 3) / fl64 (25 - 3))) 0) 1 \<and>
         e = fl64 (1 - fl64 (t * t)) \<and>
         0 \<le> t \<and> t \<le> 1 \<and> 0 \<le> e \<and> e \<le> 1 \<and>
         (gs ! i = 3 \<longrightarrow> t = 0 \<and> e = 1) \<and>
         (gs ! i = 25 \<longrightarrow> t = 1 \<and> e = 0) \<and>
         (3 < gs ! i \<and> gs ! i < 25 \<longrightarrow> 0 < t \<and> t < 1 \<and> 0 < e \<and> e \<le> 1))"
proof -
  define t where "t = min (max (fl64 (fl64 (gs ! i - 3) / 22)) 0) 1"
  define e where "e = fl64 (1 - fl64 (t * t))"
  have ET: "E = map (\<lambda>g. Fin (fl64 (1 - fl64 (min (max (fl64 (fl64 (g - 3) / 22)) 0) 1 *
                                    min (max (fl64 (fl64 (g - 3) / 22)) 0) 1)))) gs"
    "T = map (\<lambda>g. Fin (min (max (fl64 (fl64 (g - 3) / 22)) 0) 1)) gs"
    using assms(1) unfolding compute_T_E_f64_Fin by simp_all
  have l: "length E = length gs" "length T = length gs" by (simp_all add: ET)
  have Ti: "T ! i = Fin t" using assms(2) by (simp add: ET t_def)
  have Ei: "E ! i = Fin e" using assms(2) by (simp add: ET t_def e_def)
  have tf: "t = min (max (fl64 (fl64 (gs ! i - 3) / fl64 (25 - 3))) 0) 1"
    by (simp add: t_def fl64_22)
  have tb: "0 \<le> t" "t \<le> 1" by (simp_all add: t_def)
  have eb: "0 \<le> e" "e \<le> 1" unfolding e_def by (rule E_bounds[OF tb])+
  have c3: "gs ! i = 3 \<longrightarrow> t = 0 \<and> e = 1"
    by (simp add: t_def e_def fl64_zero fl64_1)
  have c25: "gs ! i = 25 \<longrightarrow> t = 1 \<and> e = 0"
    by (simp add: t_def e_def fl64_22 fl64_zero fl64_1)
  have cs: "3 < gs ! i \<and> gs ! i < 25 \<longrightarrow> 0 < t \<and> t < 1 \<and> 0 < e \<and> e \<le> 1"
  proof
    assume a: "3 < gs ! i \<and> gs ! i < 25"
    note b = T_raw_bounds[OF assms(3) conjunct1[OF a] conjunct2[OF a]]
    have tr: "t = fl64 (fl64 (gs ! i - 3) / 22)" using b by (simp add: t_def)
    have t0: "0 < t" using b(1) tr by simp
    have t1: "t \<le> 1 - 1 / 2 ^ 53" using b(2) tr by simp
    have "0 < e" unfolding e_def by (rule E_pos) (use t0 t1 in simp_all)
    with t0 t1 eb show "0 < t \<and> t < 1 \<and> 0 < e \<and> e \<le> 1" by simp
  qed
  from l Ti Ei tf e_def tb eb c3 c25 cs show ?thesis by blast
qed

theorem compute_T_E_f64_values_witness:
  "compute_T_E_f64 (map Fin [3, 25, 3 + 1 / 2 ^ 30]) g_min_default g_max_default =
     ([Fin 1, Fin 0, Fin 1], [Fin 0, Fin 1, Fin (3275345183542179/77371252455336267181195264)]) \<and>
   (2::nat) < length [3, 25, 3 + 1 / 2 ^ 30 :: real] \<and>
   fl64 ([3, 25, 3 + 1 / 2 ^ 30] ! 2) = [3, 25, 3 + 1 / 2 ^ 30] ! 2 \<and>
   3 < [3, 25, 3 + 1 / 2 ^ 30 :: real] ! 2 \<and> [3, 25, 3 + 1 / 2 ^ 30 :: real] ! 2 < 25 \<and>
   (\<exists>t e. [Fin 0, Fin 1, Fin (3275345183542179/77371252455336267181195264)] ! 2 = Fin t \<and>
        [Fin 1, Fin 0, Fin 1] ! 2 = Fin e \<and> 0 < t \<and> t < 1 \<and> 0 < e \<and> e \<le> 1)"
proof -
  have c: "compute_T_E_f64 (map Fin [3, 25, 3 + 1 / 2 ^ 30]) g_min_default g_max_default =
     ([Fin 1, Fin 0, Fin 1], [Fin 0, Fin 1, Fin (3275345183542179/77371252455336267181195264)])"
    by (simp only: compute_T_E_f64_def Let_def list.map T_E_f64_3 T_E_f64_25 T_E_f64_g30)
  have i: "(2::nat) < length [3, 25, 3 + 1 / 2 ^ 30 :: real]" by simp
  have n: "[3, 25, 3 + 1 / 2 ^ 30 :: real] ! 2 = 3 + 1 / 2 ^ 30" by simp
  have "fl64 (3 + 1 / 2 ^ 30) = 3 + 1 / 2 ^ 30" unfolding g30 by (rule ev_a0)
  then have f: "fl64 ([3, 25, 3 + 1 / 2 ^ 30] ! 2) = [3, 25, 3 + 1 / 2 ^ 30] ! 2"
    by (simp only: n)
  have g: "3 < [3, 25, 3 + 1 / 2 ^ 30 :: real] ! 2 \<and> [3, 25, 3 + 1 / 2 ^ 30 :: real] ! 2 < 25"
    by simp
  from compute_T_E_f64_values[OF c i f] obtain t e where
    t: "[Fin 0, Fin 1, Fin (3275345183542179/77371252455336267181195264)] ! 2 = Fin t"
    and e: "[Fin 1, Fin 0, Fin 1] ! 2 = Fin e"
    and b: "3 < [3, 25, 3 + 1 / 2 ^ 30 :: real] ! 2 \<and> [3, 25, 3 + 1 / 2 ^ 30 :: real] ! 2 < 25 \<longrightarrow>
         0 < t \<and> t < 1 \<and> 0 < e \<and> e \<le> 1"
    by blast
  from b g have "0 < t \<and> t < 1 \<and> 0 < e \<and> e \<le> 1" by (rule mp)
  with t e have "\<exists>t e. [Fin 0, Fin 1, Fin (3275345183542179/77371252455336267181195264)] ! 2 = Fin t \<and>
        [Fin 1, Fin 0, Fin 1] ! 2 = Fin e \<and> 0 < t \<and> t < 1 \<and> 0 < e \<and> e \<le> 1"
    by blast
  with c i f g show ?thesis by (intro conjI) simp_all
qed

section \<open>The summary under rounding\<close>














section \<open>Constant input under rounding\<close>












end
